theory Spec2Isabelle
  imports Main "HOL-Library.Word"
begin

unbundle bit_operations_syntax

section \<open>Root types\<close>

text \<open>
  The root verifier of the Shenandoah collector
  (\<^verbatim>\<open>src/hotspot/share/gc/shenandoah/shenandoahRootVerifier.cpp\<close>).
  A value of the enumeration \<^verbatim>\<open>RootTypes\<close> is handled by the code through
  \<^verbatim>\<open>static_cast<uint>\<close>, a 32-bit unsigned integer.
\<close>

type_synonym RootTypes = "32 word"

text \<open>
  The enumerators of \<^verbatim>\<open>RootTypes\<close> are declared in the header
  \<^verbatim>\<open>shenandoahRootVerifier.hpp\<close>, not in this file. Their values are parameters of
  the development: every operation and every walk below is defined for an arbitrary assignment of
  bit patterns to the nine names.
\<close>

record RootTypes_enum =
  SerialRoots :: RootTypes
  ThreadRoots :: RootTypes
  CodeRoots :: RootTypes
  CLDGRoots :: RootTypes
  WeakRoots :: RootTypes
  SerialWeakRoots :: RootTypes
  ConcurrentWeakRoots :: RootTypes
  StringDedupRoots :: RootTypes
  JNIHandleRoots :: RootTypes

definition categories :: "RootTypes_enum \<Rightarrow> RootTypes list" where
  "categories E =
     [CodeRoots E, CLDGRoots E, SerialRoots E, JNIHandleRoots E, WeakRoots E,
      SerialWeakRoots E, ConcurrentWeakRoots E, StringDedupRoots E, ThreadRoots E]"

text \<open>
  Modelled from the spec: the enumerator \<^verbatim>\<open>AllRoots\<close> is declared in the header.
  The specification (data model) says: ``An aggregate category, AllRoots, is the bitwise
  union of all of the above'', the nine categories.
\<close>

definition AllRoots :: "RootTypes_enum \<Rightarrow> RootTypes" where
  "AllRoots E = fold (OR) (categories E) 0"

text \<open>
  Modelled from the spec: the bit patterns of the categories are declared in the header.
  The specification (data model) says the categories are ``enumerated, disjoint bit positions'':
  a category is one bit of the 32-bit mask.
\<close>

definition single_bit :: "RootTypes \<Rightarrow> bool" where
  "single_bit c = (\<exists>k \<in> {..<32}. c = push_bit k 1)"

text \<open>
  Modelled from the spec: the bit patterns of the categories are declared in the header.
  The specification (data model) says the categories are ``enumerated, disjoint bit positions'':
  each of the nine categories is one bit, and no two categories share their bit.
\<close>

definition disjoint_bit_positions :: "RootTypes_enum \<Rightarrow> bool" where
  "disjoint_bit_positions E = (list_all single_bit (categories E) \<and> distinct (categories E))"

text \<open>
  The condition of the \<^verbatim>\<open>STATIC_ASSERT\<close> of line 56:
  \<^verbatim>\<open>(static_cast<uint>(AllRoots) + 1) > static_cast<uint>(AllRoots)\<close>,
  with the wrap-around of unsigned addition.
\<close>

definition AllRoots_overflow_check :: "RootTypes \<Rightarrow> bool" where
  "AllRoots_overflow_check all_roots = (all_roots + 1 > all_roots)"

text \<open>The verifier object: its only field is \<^verbatim>\<open>_types\<close>.\<close>

record ShenandoahRootVerifier =
  m_types :: RootTypes

definition excludes :: "ShenandoahRootVerifier \<Rightarrow> RootTypes \<Rightarrow> ShenandoahRootVerifier" where
  "excludes v types = v\<lparr>m_types := m_types v AND (NOT types)\<rparr>"

definition verify :: "ShenandoahRootVerifier \<Rightarrow> RootTypes \<Rightarrow> bool" where
  "verify v type = ((m_types v AND type) = type)"

definition combine :: "RootTypes \<Rightarrow> RootTypes \<Rightarrow> RootTypes" where
  "combine t1 t2 = t1 OR t2"

section \<open>The state of the virtual machine\<close>

text \<open>
  The state of the virtual machine, as far as the verifier is concerned: the collector's
  phase-state bitfield (\<^verbatim>\<open>ShenandoahHeap::_gc_state\<close>, a byte), the flag that tells
  whether concurrent weak-root processing is in progress, and everything else, \<open>vm_rest\<close>.
\<close>

record 'a vm_state =
  heap_gc_state :: "8 word"
  heap_concurrent_weak_root_in_progress :: bool
  vm_rest :: 'a

text \<open>
  Modelled from the spec: \<^verbatim>\<open>ShenandoahHeap::gc_state()\<close> is defined outside this file.
  The specification (external interfaces) says: ``Collector phase state: exposes get/set of the
  current phase-state bitfield and the concurrent-weak-in-progress flag (read/write,
  process-wide)''. The getter reads the bitfield.
\<close>

definition gc_state :: "'a vm_state \<Rightarrow> 8 word" where
  "gc_state w = heap_gc_state w"

text \<open>
  Modelled from the spec: \<^verbatim>\<open>_gc_state.set\<close> is defined outside this file. The
  specification (data model) says of the value passed to it that the destructor ``writes both
  snapshotted values back to the live collector state'': the setter overwrites the bitfield.
\<close>

definition gc_state_set :: "8 word \<Rightarrow> 'a vm_state \<Rightarrow> 'a vm_state" where
  "gc_state_set v w = w\<lparr>heap_gc_state := v\<rparr>"

text \<open>
  Modelled from the spec: \<^verbatim>\<open>ShenandoahHeap::is_concurrent_weak_root_in_progress()\<close> is
  defined outside this file. By the same sentence of the specification (get/set of the
  concurrent-weak-in-progress flag) the getter reads the flag.
\<close>

definition is_concurrent_weak_root_in_progress :: "'a vm_state \<Rightarrow> bool" where
  "is_concurrent_weak_root_in_progress w = heap_concurrent_weak_root_in_progress w"

text \<open>
  Modelled from the spec: \<^verbatim>\<open>ShenandoahHeap::set_concurrent_weak_root_in_progress\<close> is
  defined outside this file. By the same sentence of the specification the setter overwrites the
  flag.
\<close>

definition set_concurrent_weak_root_in_progress :: "bool \<Rightarrow> 'a vm_state \<Rightarrow> 'a vm_state" where
  "set_concurrent_weak_root_in_progress b w = w\<lparr>heap_concurrent_weak_root_in_progress := b\<rparr>"

section \<open>The collaborators of the walker\<close>

text \<open>
  The closures handed to the root sources. \<open>'c\<close> is the type of the caller's
  \<^verbatim>\<open>OopClosure\<close>.
\<close>

datatype BoolObjectClosure = AlwaysTrueClosure

datatype 'c CodeBlobToOopClosure = CodeBlobToOopClosure 'c bool

datatype 'c CLDToOopClosure = CLDToOopClosure 'c int

datatype Mutex = CodeCache_lock | ClassLoaderDataGraph_lock

type_synonym Phase = nat
type_synonym OopStorage = nat

text \<open>
  The root sources, the assertion macros and the constants the walker uses are defined outside
  this file; they are parameters. A root source is an arbitrary function on the state of
  the virtual machine: it may change the collector's phase state at will. An assertion macro is
  the predicate that tells whether the assertion passes in a state (constantly true in a build
  without assertions). The two iterators are the lists of the elements they enumerate.
\<close>

record ('c, 'a) runtime =
  FixRelocations :: bool
  claim_none :: int
  shenandoah_assert_safepoint :: "'a vm_state \<Rightarrow> bool"
  shenandoah_assert_locked_or_safepoint :: "Mutex \<Rightarrow> 'a vm_state \<Rightarrow> bool"
  Threads_change_thread_claim_token :: "'a vm_state \<Rightarrow> 'a vm_state"
  CodeCache_blobs_do :: "'c CodeBlobToOopClosure \<Rightarrow> 'a vm_state \<Rightarrow> 'a vm_state"
  ClassLoaderDataGraph_cld_do :: "'c CLDToOopClosure \<Rightarrow> 'a vm_state \<Rightarrow> 'a vm_state"
  ClassLoaderDataGraph_roots_cld_do ::
    "'c CLDToOopClosure \<Rightarrow> 'c CLDToOopClosure option \<Rightarrow> 'a vm_state \<Rightarrow> 'a vm_state"
  JNIHandles_oops_do :: "'c \<Rightarrow> 'a vm_state \<Rightarrow> 'a vm_state"
  vm_global_oops_do :: "'c \<Rightarrow> 'a vm_state \<Rightarrow> 'a vm_state"
  WeakProcessor_weak_oops_do :: "BoolObjectClosure \<Rightarrow> 'c \<Rightarrow> 'a vm_state \<Rightarrow> 'a vm_state"
  serial_iterator :: "Phase list"
  WeakProcessorPhases_processor ::
    "Phase \<Rightarrow> BoolObjectClosure \<Rightarrow> 'c \<Rightarrow> 'a vm_state \<Rightarrow> 'a vm_state"
  weak_iterator :: "OopStorage list"
  OopStorage_oops_do :: "OopStorage \<Rightarrow> 'c \<Rightarrow> 'a vm_state \<Rightarrow> 'a vm_state"
  ShenandoahStringDedup_is_enabled :: bool
  ShenandoahStringDedup_oops_do_slow :: "'c \<Rightarrow> 'a vm_state \<Rightarrow> 'a vm_state"
  Threads_possibly_parallel_oops_do ::
    "bool \<Rightarrow> 'c \<Rightarrow> 'c CodeBlobToOopClosure \<Rightarrow> 'a vm_state \<Rightarrow> 'a vm_state"

section \<open>Runs of a walk\<close>

text \<open>
  A run records the calls the walker makes, in the order it makes them. A failed assertion
  terminates the virtual machine: the run is \<open>Aborted\<close> and nothing more is executed,
  no destructor either.
\<close>

datatype call =
    blobs_do_call
  | cld_do_call
  | roots_cld_do_call
  | JNIHandles_call
  | vm_global_call
  | weak_oops_do_call BoolObjectClosure
  | serial_weak_roots_do_call
  | processor_call Phase BoolObjectClosure
  | concurrent_weak_roots_do_call
  | storage_oops_do_call OopStorage
  | oops_do_slow_call
  | possibly_parallel_oops_do_call bool

datatype status = Running | Aborted

record 'a run =
  status :: status
  vm :: "'a vm_state"
  visited :: "call list"

definition vm_assert :: "('a vm_state \<Rightarrow> bool) \<Rightarrow> 'a run \<Rightarrow> 'a run" where
  "vm_assert P r = (if status r = Running \<and> \<not> P (vm r) then r\<lparr>status := Aborted\<rparr> else r)"

definition invoke :: "call \<Rightarrow> ('a vm_state \<Rightarrow> 'a vm_state) \<Rightarrow> 'a run \<Rightarrow> 'a run" where
  "invoke c f r =
     (if status r = Running then r\<lparr>vm := f (vm r), visited := visited r @ [c]\<rparr> else r)"

definition enter :: "call \<Rightarrow> 'a run \<Rightarrow> 'a run" where
  "enter c = invoke c (\<lambda>w. w)"

definition modify :: "('a vm_state \<Rightarrow> 'a vm_state) \<Rightarrow> 'a run \<Rightarrow> 'a run" where
  "modify f r = (if status r = Running then r\<lparr>vm := f (vm r)\<rparr> else r)"

definition do_steps :: "('a run \<Rightarrow> 'a run) list \<Rightarrow> 'a run \<Rightarrow> 'a run" where
  "do_steps steps r = fold (\<lambda>step. step) steps r"

definition start :: "'a vm_state \<Rightarrow> 'a run" where
  "start w = \<lparr>status = Running, vm = w, visited = []\<rparr>"

section \<open>The state resetter\<close>

record ShenandoahGCStateResetter =
  saved_gc_state :: "8 word"
  saved_concurrent_weak_root_in_progress :: bool

definition ShenandoahGCStateResetter_ctor :: "'a vm_state \<Rightarrow> ShenandoahGCStateResetter" where
  "ShenandoahGCStateResetter_ctor w =
     \<lparr>saved_gc_state = gc_state w,
      saved_concurrent_weak_root_in_progress = is_concurrent_weak_root_in_progress w\<rparr>"

definition ShenandoahGCStateResetter_dtor :: "ShenandoahGCStateResetter \<Rightarrow> 'a run \<Rightarrow> 'a run" where
  "ShenandoahGCStateResetter_dtor resetter =
     do_steps
      [modify (gc_state_set (saved_gc_state resetter)),
       vm_assert (\<lambda>w. gc_state w = saved_gc_state resetter),
       modify (set_concurrent_weak_root_in_progress
                 (saved_concurrent_weak_root_in_progress resetter))]"

section \<open>The walker\<close>

definition ShenandoahRootVerifier_ctor ::
  "('c, 'a) runtime \<Rightarrow> RootTypes \<Rightarrow> 'a vm_state \<Rightarrow> ShenandoahRootVerifier \<times> 'a vm_state" where
  "ShenandoahRootVerifier_ctor rt types w =
     (\<lparr>m_types = types\<rparr>, Threads_change_thread_claim_token rt w)"

definition serial_weak_roots_do :: "('c, 'a) runtime \<Rightarrow> 'c \<Rightarrow> 'a run \<Rightarrow> 'a run" where
  "serial_weak_roots_do rt cl =
     do_steps
      (enter serial_weak_roots_do_call #
       map (\<lambda>itr. invoke (processor_call itr AlwaysTrueClosure)
                    (WeakProcessorPhases_processor rt itr AlwaysTrueClosure cl))
           (serial_iterator rt))"

definition concurrent_weak_roots_do :: "('c, 'a) runtime \<Rightarrow> 'c \<Rightarrow> 'a run \<Rightarrow> 'a run" where
  "concurrent_weak_roots_do rt cl =
     do_steps
      (enter concurrent_weak_roots_do_call #
       map (\<lambda>storage. invoke (storage_oops_do_call storage) (OopStorage_oops_do rt storage cl))
           (weak_iterator rt))"

definition oops_do ::
  "('c, 'a) runtime \<Rightarrow> RootTypes_enum \<Rightarrow> ShenandoahRootVerifier \<Rightarrow> 'c \<Rightarrow> 'a vm_state \<Rightarrow> 'a run"
where
  "oops_do rt E v oops_cl w =
    (let resetter = ShenandoahGCStateResetter_ctor w;
         blobs = CodeBlobToOopClosure oops_cl (\<not> FixRelocations rt)
     in ShenandoahGCStateResetter_dtor resetter
         (do_steps
           [if verify v (CodeRoots E)
            then do_steps
                  [vm_assert (shenandoah_assert_locked_or_safepoint rt CodeCache_lock),
                   invoke blobs_do_call (CodeCache_blobs_do rt blobs)]
            else (\<lambda>r. r),
            if verify v (CLDGRoots E)
            then do_steps
                  [vm_assert (shenandoah_assert_locked_or_safepoint rt ClassLoaderDataGraph_lock),
                   invoke cld_do_call
                     (ClassLoaderDataGraph_cld_do rt (CLDToOopClosure oops_cl (claim_none rt)))]
            else (\<lambda>r. r),
            if verify v (SerialRoots E)
            then vm_assert (shenandoah_assert_safepoint rt)
            else (\<lambda>r. r),
            if verify v (JNIHandleRoots E)
            then do_steps
                  [vm_assert (shenandoah_assert_safepoint rt),
                   invoke JNIHandles_call (JNIHandles_oops_do rt oops_cl),
                   invoke vm_global_call (vm_global_oops_do rt oops_cl)]
            else (\<lambda>r. r),
            if verify v (WeakRoots E)
            then do_steps
                  [vm_assert (shenandoah_assert_safepoint rt),
                   invoke (weak_oops_do_call AlwaysTrueClosure)
                     (WeakProcessor_weak_oops_do rt AlwaysTrueClosure oops_cl)]
            else if verify v (SerialWeakRoots E)
            then do_steps
                  [vm_assert (shenandoah_assert_safepoint rt),
                   serial_weak_roots_do rt oops_cl]
            else if verify v (ConcurrentWeakRoots E)
            then concurrent_weak_roots_do rt oops_cl
            else (\<lambda>r. r),
            if ShenandoahStringDedup_is_enabled rt \<and> verify v (StringDedupRoots E)
            then do_steps
                  [vm_assert (shenandoah_assert_safepoint rt),
                   invoke oops_do_slow_call (ShenandoahStringDedup_oops_do_slow rt oops_cl)]
            else (\<lambda>r. r),
            if verify v (ThreadRoots E)
            then do_steps
                  [vm_assert (shenandoah_assert_safepoint rt),
                   invoke (possibly_parallel_oops_do_call False)
                     (Threads_possibly_parallel_oops_do rt False oops_cl blobs)]
            else (\<lambda>r. r)]
           (start w)))"

definition roots_do ::
  "('c, 'a) runtime \<Rightarrow> ShenandoahRootVerifier \<Rightarrow> 'c \<Rightarrow> 'a vm_state \<Rightarrow> 'a run"
where
  "roots_do rt v oops_cl w =
    (let resetter = ShenandoahGCStateResetter_ctor w;
         blobs = CodeBlobToOopClosure oops_cl (\<not> FixRelocations rt)
     in ShenandoahGCStateResetter_dtor resetter
         (do_steps
           [vm_assert (shenandoah_assert_safepoint rt),
            invoke blobs_do_call (CodeCache_blobs_do rt blobs),
            invoke cld_do_call
              (ClassLoaderDataGraph_cld_do rt (CLDToOopClosure oops_cl (claim_none rt))),
            invoke JNIHandles_call (JNIHandles_oops_do rt oops_cl),
            invoke vm_global_call (vm_global_oops_do rt oops_cl),
            invoke (weak_oops_do_call AlwaysTrueClosure)
              (WeakProcessor_weak_oops_do rt AlwaysTrueClosure oops_cl),
            if ShenandoahStringDedup_is_enabled rt
            then invoke oops_do_slow_call (ShenandoahStringDedup_oops_do_slow rt oops_cl)
            else (\<lambda>r. r),
            invoke (possibly_parallel_oops_do_call True)
              (Threads_possibly_parallel_oops_do rt True oops_cl blobs)]
           (start w)))"

definition strong_roots_do ::
  "('c, 'a) runtime \<Rightarrow> ShenandoahRootVerifier \<Rightarrow> 'c \<Rightarrow> 'a vm_state \<Rightarrow> 'a run"
where
  "strong_roots_do rt v oops_cl w =
    (let resetter = ShenandoahGCStateResetter_ctor w;
         blobs = CodeBlobToOopClosure oops_cl (\<not> FixRelocations rt)
     in ShenandoahGCStateResetter_dtor resetter
         (do_steps
           [vm_assert (shenandoah_assert_safepoint rt),
            invoke roots_cld_do_call
              (ClassLoaderDataGraph_roots_cld_do rt
                 (CLDToOopClosure oops_cl (claim_none rt)) None),
            invoke JNIHandles_call (JNIHandles_oops_do rt oops_cl),
            invoke vm_global_call (vm_global_oops_do rt oops_cl),
            invoke (possibly_parallel_oops_do_call True)
              (Threads_possibly_parallel_oops_do rt True oops_cl blobs)]
           (start w)))"

section \<open>Observations on runs\<close>

text \<open>
  The calls that visit the thread roots, the calls that start a weak-root strategy, and all the
  calls that visit weak roots (a strategy's start and the phases or storages it walks).
\<close>

fun is_thread_roots :: "call \<Rightarrow> bool" where
  "is_thread_roots (possibly_parallel_oops_do_call is_par) = True"
| "is_thread_roots _ = False"

fun is_weak_strategy :: "call \<Rightarrow> bool" where
  "is_weak_strategy (weak_oops_do_call is_alive) = True"
| "is_weak_strategy serial_weak_roots_do_call = True"
| "is_weak_strategy concurrent_weak_roots_do_call = True"
| "is_weak_strategy _ = False"

fun is_weak_call :: "call \<Rightarrow> bool" where
  "is_weak_call (weak_oops_do_call is_alive) = True"
| "is_weak_call serial_weak_roots_do_call = True"
| "is_weak_call (processor_call phase is_alive) = True"
| "is_weak_call concurrent_weak_roots_do_call = True"
| "is_weak_call (storage_oops_do_call storage) = True"
| "is_weak_call _ = False"

text \<open>Every assertion of the walker passes in every state (as in a build without assertions).\<close>

definition asserts_pass :: "('c, 'a) runtime \<Rightarrow> bool" where
  "asserts_pass rt =
     ((\<forall>w. shenandoah_assert_safepoint rt w) \<and>
      (\<forall>l w. shenandoah_assert_locked_or_safepoint rt l w))"

text \<open>
  Properties of one step of a run, used to reason about a walk step by step:
  a step is \<open>strict\<close> when it leaves an aborted run alone; it \<open>appends Q\<close> when all it does to
  the record of calls is to add calls that satisfy \<open>Q\<close>; it \<open>keeps_running\<close> when it never
  aborts; it \<open>adds P xs\<close> when it never aborts and the calls satisfying \<open>P\<close> that it adds are
  \<open>xs\<close>; it is \<open>all_or_nothing P xs\<close> when the calls satisfying \<open>P\<close> that it adds are
  \<open>xs\<close>, or none at all in a run that it leaves aborted.
\<close>

definition strict :: "('a run \<Rightarrow> 'a run) \<Rightarrow> bool" where
  "strict f = (\<forall>r. status r = Aborted \<longrightarrow> f r = r)"

definition appends :: "(call \<Rightarrow> bool) \<Rightarrow> ('a run \<Rightarrow> 'a run) \<Rightarrow> bool" where
  "appends Q f = (\<forall>r. \<exists>cs. visited (f r) = visited r @ cs \<and> list_all Q cs)"

definition keeps_running :: "('a run \<Rightarrow> 'a run) \<Rightarrow> bool" where
  "keeps_running f = (\<forall>r. status r = Running \<longrightarrow> status (f r) = Running)"

definition adds :: "(call \<Rightarrow> bool) \<Rightarrow> call list \<Rightarrow> ('a run \<Rightarrow> 'a run) \<Rightarrow> bool" where
  "adds P xs f =
     (\<forall>r. status r = Running \<longrightarrow>
          status (f r) = Running \<and>
          filter P (visited (f r)) = filter P (visited r) @ xs)"

definition all_or_nothing ::
  "(call \<Rightarrow> bool) \<Rightarrow> call list \<Rightarrow> ('a run \<Rightarrow> 'a run) \<Rightarrow> bool" where
  "all_or_nothing P xs f =
     (\<forall>r. filter P (visited (f r)) = filter P (visited r) @ xs \<or>
          status (f r) = Aborted \<and> filter P (visited (f r)) = filter P (visited r))"

section \<open>An example configuration\<close>

text \<open>
  An assignment of the nine categories to the bits 0 to 8, a virtual machine whose root sources
  all change the collector's phase state, and a state to start from.
\<close>

definition example_enum :: RootTypes_enum where
  "example_enum =
     \<lparr>SerialRoots = 1, ThreadRoots = 2, CodeRoots = 4, CLDGRoots = 8, WeakRoots = 16,
      SerialWeakRoots = 32, ConcurrentWeakRoots = 64, StringDedupRoots = 128,
      JNIHandleRoots = 256\<rparr>"

definition scramble :: "8 word \<Rightarrow> unit vm_state \<Rightarrow> unit vm_state" where
  "scramble x w =
     w\<lparr>heap_gc_state := heap_gc_state w XOR x,
       heap_concurrent_weak_root_in_progress := \<not> heap_concurrent_weak_root_in_progress w\<rparr>"

definition example_runtime :: "(unit, unit) runtime" where
  "example_runtime =
     \<lparr>FixRelocations = True,
      claim_none = 0,
      shenandoah_assert_safepoint = (\<lambda>w. True),
      shenandoah_assert_locked_or_safepoint = (\<lambda>l w. True),
      Threads_change_thread_claim_token = (\<lambda>w. w),
      CodeCache_blobs_do = (\<lambda>cl. scramble 1),
      ClassLoaderDataGraph_cld_do = (\<lambda>cl. scramble 2),
      ClassLoaderDataGraph_roots_cld_do = (\<lambda>cl1 cl2. scramble 3),
      JNIHandles_oops_do = (\<lambda>cl. scramble 4),
      vm_global_oops_do = (\<lambda>cl. scramble 5),
      WeakProcessor_weak_oops_do = (\<lambda>is_alive cl. scramble 6),
      serial_iterator = [0, 1],
      WeakProcessorPhases_processor = (\<lambda>phase is_alive cl. scramble 7),
      weak_iterator = [0, 1, 2],
      OopStorage_oops_do = (\<lambda>storage cl. scramble 8),
      ShenandoahStringDedup_is_enabled = True,
      ShenandoahStringDedup_oops_do_slow = (\<lambda>cl. scramble 9),
      Threads_possibly_parallel_oops_do = (\<lambda>is_par cl blobs. scramble 255)\<rparr>"

definition example_vm :: "unit vm_state" where
  "example_vm =
     \<lparr>heap_gc_state = 5, heap_concurrent_weak_root_in_progress = False, vm_rest = ()\<rparr>"

text \<open>
  A second example: a virtual machine whose root sources write down, in the part of the state
  that is not the collector's, which source ran and what it was handed (the caller's closure,
  the flags of the closures built by the walker, the \<^verbatim>\<open>is_par\<close> flag).
\<close>

definition log_call :: "int list \<Rightarrow> int list vm_state \<Rightarrow> int list vm_state" where
  "log_call xs w = w\<lparr>heap_gc_state := heap_gc_state w + 1, vm_rest := vm_rest w @ xs\<rparr>"

definition tracing_runtime :: "(int, int list) runtime" where
  "tracing_runtime =
     \<lparr>FixRelocations = True,
      claim_none = 0,
      shenandoah_assert_safepoint = (\<lambda>w. True),
      shenandoah_assert_locked_or_safepoint = (\<lambda>l w. True),
      Threads_change_thread_claim_token = (\<lambda>w. w),
      CodeCache_blobs_do =
        (\<lambda>blobs. case blobs of CodeBlobToOopClosure cl fix \<Rightarrow>
           log_call [1, cl, if fix then 1 else 0]),
      ClassLoaderDataGraph_cld_do =
        (\<lambda>clds. case clds of CLDToOopClosure cl claim \<Rightarrow> log_call [2, cl, claim]),
      ClassLoaderDataGraph_roots_cld_do =
        (\<lambda>strong weak. case strong of CLDToOopClosure cl claim \<Rightarrow>
           log_call [3, cl, claim, case weak of None \<Rightarrow> 0 | Some other \<Rightarrow> 1]),
      JNIHandles_oops_do = (\<lambda>cl. log_call [4, cl]),
      vm_global_oops_do = (\<lambda>cl. log_call [5, cl]),
      WeakProcessor_weak_oops_do = (\<lambda>is_alive cl. log_call [6, cl]),
      serial_iterator = [0, 1],
      WeakProcessorPhases_processor = (\<lambda>phase is_alive cl. log_call [7, int phase, cl]),
      weak_iterator = [0, 1, 2],
      OopStorage_oops_do = (\<lambda>storage cl. log_call [8, int storage, cl]),
      ShenandoahStringDedup_is_enabled = True,
      ShenandoahStringDedup_oops_do_slow = (\<lambda>cl. log_call [9, cl]),
      Threads_possibly_parallel_oops_do =
        (\<lambda>is_par cl blobs. case blobs of CodeBlobToOopClosure cl' fix \<Rightarrow>
           log_call [10, if is_par then 1 else 0, cl, cl', if fix then 1 else 0])\<rparr>"

definition tracing_vm :: "int list vm_state" where
  "tracing_vm =
     \<lparr>heap_gc_state = 5, heap_concurrent_weak_root_in_progress = True, vm_rest = []\<rparr>"

section \<open>Properties of the root types\<close>

lemma verify_iff_bits:
  "verify v c \<longleftrightarrow> (\<forall>n. bit c n \<longrightarrow> bit (m_types v) n)"
proof
  assume "verify v c"
  then have "m_types v AND c = c" by (simp add: verify_def)
  then show "\<forall>n. bit c n \<longrightarrow> bit (m_types v) n"
    by (metis bit_and_iff)
next
  assume "\<forall>n. bit c n \<longrightarrow> bit (m_types v) n"
  then have "m_types v AND c = c"
    by (auto simp: bit_eq_iff bit_simps)
  then show "verify v c" by (simp add: verify_def)
qed

lemma bit_AllRoots:
  "bit (AllRoots E) n \<longleftrightarrow> (\<exists>c \<in> set (categories E). bit c n)"
  by (simp add: AllRoots_def categories_def bit_simps) blast

lemma overflow_check_iff: "AllRoots_overflow_check a \<longleftrightarrow> a \<noteq> - 1"
  by (simp add: AllRoots_overflow_check_def inc_less_eq_self_iff_eq flip: not_le)

lemma single_bit_position: "single_bit c \<Longrightarrow> \<exists>k. \<forall>n. bit c n \<longleftrightarrow> n = k"
  by (auto simp: single_bit_def bit_simps)

text \<open>
  Nine categories of one bit each cannot fill the 32 bits of the mask: some position below 32
  is the bit of no category.
\<close>

lemma AllRoots_not_full:
  assumes "list_all single_bit (categories E)"
  shows "AllRoots E \<noteq> - 1"
proof
  assume full: "AllRoots E = - 1"
  from assms have "\<forall>c \<in> set (categories E). \<exists>k. \<forall>n. bit c n \<longleftrightarrow> n = k"
    by (auto simp: list_all_iff dest: single_bit_position)
  then obtain pos where pos: "\<forall>c \<in> set (categories E). \<forall>n. bit c n \<longleftrightarrow> n = pos c"
    by (rule bchoice [THEN exE])
  have "{..<32} \<subseteq> pos ` set (categories E)"
  proof
    fix n :: nat
    assume "n \<in> {..<32}"
    then have "bit (- 1 :: 32 word) n" by (simp add: bit_simps)
    with full have "bit (AllRoots E) n" by simp
    then obtain c where "c \<in> set (categories E)" "bit c n"
      by (auto simp: bit_AllRoots)
    with pos show "n \<in> pos ` set (categories E)" by auto
  qed
  then have "card {..<32::nat} \<le> card (pos ` set (categories E))"
    by (intro card_mono) simp_all
  also have "\<dots> \<le> card (set (categories E))"
    by (rule card_image_le) simp
  also have "\<dots> \<le> length (categories E)"
    by (rule card_length)
  also have "\<dots> = 9"
    by (simp add: categories_def)
  finally show False by simp
qed

lemma example_disjoint: "disjoint_bit_positions example_enum"
  by code_simp

lemma example_AllRoots: "AllRoots example_enum = 511"
  by (simp add: AllRoots_def categories_def example_enum_def)

text \<open>
  Claim C6. The containment test \<open>verify\<close> of a walker whose set is \<open>m_types v\<close> is true
  of a category mask \<open>c\<close> exactly when every bit of \<open>c\<close> is set in the walker's set: all bits
  present, not any bit present. In particular a walker configured with \<open>AllRoots\<close> contains
  each of the nine categories.
\<close>

theorem verify_all_bits_present:
  "(verify v c \<longleftrightarrow> (\<forall>n. bit c n \<longrightarrow> bit (m_types v) n)) \<and>
   (c \<in> set (categories E) \<longrightarrow> verify \<lparr>m_types = AllRoots E\<rparr> c)"
  by (auto simp: verify_iff_bits bit_AllRoots)

theorem verify_all_bits_present_witness:
  "verify \<lparr>m_types = 7\<rparr> 5 \<and>
   \<not> verify \<lparr>m_types = 4\<rparr> 5 \<and>
   \<not> bit (m_types \<lparr>m_types = 4\<rparr>) 0 \<and>
   ThreadRoots example_enum \<in> set (categories example_enum) \<and>
   verify \<lparr>m_types = AllRoots example_enum\<rparr> (ThreadRoots example_enum)"
proof -
  have 1: "verify \<lparr>m_types = 7\<rparr> 5" and 2: "\<not> bit (m_types \<lparr>m_types = 4\<rparr>) 0"
    by (simp_all add: verify_def)
  have 3: "ThreadRoots example_enum \<in> set (categories example_enum)"
    by (simp add: categories_def)
  have 4: "bit (5 :: 32 word) 0"
    by simp
  from 1 2 3 4 verify_all_bits_present [of "\<lparr>m_types = 4\<rparr>" 5]
    verify_all_bits_present [of _ "ThreadRoots example_enum" example_enum]
  show ?thesis by blast
qed

text \<open>
  Claim C7. Excluding \<open>c\<close> from the combination of \<open>s\<close> with \<open>c\<close> leaves the same mask as
  excluding \<open>c\<close> from \<open>s\<close>: \<open>excludes\<close> (bitwise AND with the complement) applied to a
  walker holding \<open>combine s c\<close> (bitwise OR) gives the walker that \<open>excludes\<close> gives from
  \<open>s\<close>, bit for bit.
\<close>

theorem exclude_combine:
  "excludes \<lparr>m_types = combine s c\<rparr> c = excludes \<lparr>m_types = s\<rparr> c \<and>
   m_types (excludes \<lparr>m_types = combine s c\<rparr> c) = s AND NOT c"
  by (simp add: excludes_def combine_def) (rule bit_word_eqI, auto simp: bit_simps)

text \<open>
  Claim C8. The condition of the static assertion, \<open>AllRoots + 1 > AllRoots\<close> in unsigned
  32-bit arithmetic, says that \<open>AllRoots\<close> is not the greatest value of the mask type; it holds
  for \<open>AllRoots\<close>, the union of the nine categories, whenever the categories occupy disjoint
  bit positions, so that the width of the mask exceeds the bits in use.
\<close>

theorem AllRoots_static_assert:
  "(AllRoots_overflow_check a \<longleftrightarrow> a \<noteq> - 1) \<and>
   (disjoint_bit_positions E \<longrightarrow>
      AllRoots_overflow_check (AllRoots E) \<and> AllRoots E \<noteq> - 1)"
proof (intro conjI impI)
  show "AllRoots_overflow_check a \<longleftrightarrow> a \<noteq> - 1"
    by (rule overflow_check_iff)
next
  assume "disjoint_bit_positions E"
  then show ne: "AllRoots E \<noteq> - 1"
    by (simp add: disjoint_bit_positions_def AllRoots_not_full)
  then show "AllRoots_overflow_check (AllRoots E)"
    by (simp add: overflow_check_iff)
qed

theorem AllRoots_static_assert_witness:
  "disjoint_bit_positions example_enum \<and>
   AllRoots example_enum = 511 \<and>
   AllRoots_overflow_check (AllRoots example_enum) \<and>
   AllRoots example_enum \<noteq> - 1 \<and>
   \<not> AllRoots_overflow_check (- 1)"
  using AllRoots_static_assert [of "- 1" example_enum] example_disjoint example_AllRoots
  by simp

text \<open>
  Claim C9. The containment test distributes over combination: a walker contains
  \<open>combine t1 t2\<close> exactly when it contains \<open>t1\<close> and contains \<open>t2\<close>.
\<close>

theorem verify_combine:
  "verify v (combine t1 t2) \<longleftrightarrow> verify v t1 \<and> verify v t2"
  by (auto simp: verify_iff_bits combine_def bit_simps)

text \<open>
  Claim C10. Every walker contains the empty category mask: \<open>verify\<close> of the mask with no
  bit set is true, whatever the walker's set.
\<close>

theorem verify_empty_mask:
  "verify v 0"
  by (simp add: verify_def)

section \<open>Reasoning about runs step by step\<close>

lemma do_steps_Nil [simp]: "do_steps [] r = r"
  by (simp add: do_steps_def)

lemma do_steps_Cons [simp]: "do_steps (f # fs) r = do_steps fs (f r)"
  by (simp add: do_steps_def)

lemma do_steps_append: "do_steps (fs @ gs) r = do_steps gs (do_steps fs r)"
  by (simp add: do_steps_def)

subsection \<open>Steps that leave an aborted run alone\<close>

lemma strict_id: "strict (\<lambda>r. r)"
  by (simp add: strict_def)

lemma strict_vm_assert: "strict (vm_assert P)"
  by (simp add: strict_def vm_assert_def)

lemma strict_invoke: "strict (invoke c f)"
  by (simp add: strict_def invoke_def)

lemma strict_enter: "strict (enter c)"
  unfolding enter_def by (rule strict_invoke)

lemma strict_modify: "strict (modify f)"
  by (simp add: strict_def modify_def)

lemma strict_if: "strict f \<Longrightarrow> strict g \<Longrightarrow> strict (if b then f else g)"
  by simp

lemma strict_do_steps: "list_all strict fs \<Longrightarrow> strict (do_steps fs)"
  by (induction fs) (auto simp: strict_def)

lemmas strict_intros = strict_id strict_vm_assert strict_invoke strict_enter strict_modify
  strict_if strict_do_steps

lemma strict_serial: "strict (serial_weak_roots_do rt cl)"
  unfolding serial_weak_roots_do_def
  by (rule strict_do_steps) (simp add: list_all_iff strict_intros)

lemma strict_concurrent: "strict (concurrent_weak_roots_do rt cl)"
  unfolding concurrent_weak_roots_do_def
  by (rule strict_do_steps) (simp add: list_all_iff strict_intros)

lemma strict_dtor: "strict (ShenandoahGCStateResetter_dtor res)"
  unfolding ShenandoahGCStateResetter_dtor_def
  by (rule strict_do_steps) (simp add: strict_intros)

lemma strict_Running: "strict f \<Longrightarrow> status (f r) = Running \<Longrightarrow> status r = Running"
  by (metis strict_def status.exhaust)

subsection \<open>What a step adds to the record of calls\<close>

lemma appends_id: "appends Q (\<lambda>r. r)"
  by (simp add: appends_def)

lemma appends_vm_assert: "appends Q (vm_assert P)"
  by (simp add: appends_def vm_assert_def)

lemma appends_invoke: "Q c \<Longrightarrow> appends Q (invoke c f)"
  by (simp add: appends_def invoke_def)

lemma appends_enter: "Q c \<Longrightarrow> appends Q (enter c)"
  unfolding enter_def by (rule appends_invoke)

lemma appends_modify: "appends Q (modify f)"
  by (simp add: appends_def modify_def)

lemma appends_if: "appends Q f \<Longrightarrow> appends Q g \<Longrightarrow> appends Q (if b then f else g)"
  by simp

lemma appends_do_steps: "list_all (appends Q) fs \<Longrightarrow> appends Q (do_steps fs)"
proof (induction fs)
  case Nil
  show ?case by (simp add: appends_def)
next
  case (Cons f fs)
  then have f: "appends Q f" and fs: "appends Q (do_steps fs)" by simp_all
  show ?case unfolding appends_def
  proof
    fix r
    from f obtain cs where cs: "visited (f r) = visited r @ cs" "list_all Q cs"
      by (auto simp: appends_def)
    from fs obtain ds where ds: "visited (do_steps fs (f r)) = visited (f r) @ ds" "list_all Q ds"
      by (auto simp: appends_def)
    from cs ds have "visited (do_steps (f # fs) r) = visited r @ (cs @ ds) \<and> list_all Q (cs @ ds)"
      by simp
    then show "\<exists>cs. visited (do_steps (f # fs) r) = visited r @ cs \<and> list_all Q cs" ..
  qed
qed

lemmas appends_intros = appends_id appends_vm_assert appends_invoke appends_enter appends_modify
  appends_if appends_do_steps

lemma appends_serial:
  "Q serial_weak_roots_do_call \<Longrightarrow> (\<And>p a. Q (processor_call p a))
    \<Longrightarrow> appends Q (serial_weak_roots_do rt cl)"
  unfolding serial_weak_roots_do_def
  by (rule appends_do_steps) (simp add: list_all_iff appends_intros)

lemma appends_concurrent:
  "Q concurrent_weak_roots_do_call \<Longrightarrow> (\<And>s. Q (storage_oops_do_call s))
    \<Longrightarrow> appends Q (concurrent_weak_roots_do rt cl)"
  unfolding concurrent_weak_roots_do_def
  by (rule appends_do_steps) (simp add: list_all_iff appends_intros)

lemma visited_dtor [simp]: "visited (ShenandoahGCStateResetter_dtor res r) = visited r"
  by (simp add: ShenandoahGCStateResetter_dtor_def modify_def vm_assert_def)

subsection \<open>Steps that never abort\<close>

lemma keeps_id: "keeps_running (\<lambda>r. r)"
  by (simp add: keeps_running_def)

lemma keeps_vm_assert: "(\<And>w. P w) \<Longrightarrow> keeps_running (vm_assert P)"
  by (simp add: keeps_running_def vm_assert_def)

lemma keeps_invoke: "keeps_running (invoke c f)"
  by (simp add: keeps_running_def invoke_def)

lemma keeps_enter: "keeps_running (enter c)"
  unfolding enter_def by (rule keeps_invoke)

lemma keeps_modify: "keeps_running (modify f)"
  by (simp add: keeps_running_def modify_def)

lemma keeps_if: "keeps_running f \<Longrightarrow> keeps_running g \<Longrightarrow> keeps_running (if b then f else g)"
  by simp

lemma keeps_do_steps: "list_all keeps_running fs \<Longrightarrow> keeps_running (do_steps fs)"
  by (induction fs) (auto simp: keeps_running_def)

lemmas keeps_intros = keeps_id keeps_vm_assert keeps_invoke keeps_enter keeps_modify
  keeps_if keeps_do_steps

lemma keeps_serial: "keeps_running (serial_weak_roots_do rt cl)"
  unfolding serial_weak_roots_do_def
  by (rule keeps_do_steps) (simp add: list_all_iff keeps_intros)

lemma keeps_concurrent: "keeps_running (concurrent_weak_roots_do rt cl)"
  unfolding concurrent_weak_roots_do_def
  by (rule keeps_do_steps) (simp add: list_all_iff keeps_intros)

lemma dtor_Running:
  "status (ShenandoahGCStateResetter_dtor res r) = status r"
  by (simp add: ShenandoahGCStateResetter_dtor_def modify_def vm_assert_def gc_state_def
      gc_state_set_def)

lemma dtor_restores:
  "status r = Running \<Longrightarrow>
     gc_state (vm (ShenandoahGCStateResetter_dtor res r)) = saved_gc_state res \<and>
     is_concurrent_weak_root_in_progress (vm (ShenandoahGCStateResetter_dtor res r)) =
       saved_concurrent_weak_root_in_progress res"
  by (simp add: ShenandoahGCStateResetter_dtor_def modify_def vm_assert_def gc_state_def
      gc_state_set_def is_concurrent_weak_root_in_progress_def
      set_concurrent_weak_root_in_progress_def)

lemma keeps_start: "keeps_running f \<Longrightarrow> status (f (start w)) = Running"
  by (simp add: keeps_running_def start_def)

lemma oops_do_completes: "asserts_pass rt \<Longrightarrow> status (oops_do rt E v oops_cl w) = Running"
  unfolding oops_do_def Let_def dtor_Running
  by (rule keeps_start, rule keeps_do_steps)
     (simp add: keeps_intros keeps_serial keeps_concurrent asserts_pass_def)

lemma roots_do_completes: "asserts_pass rt \<Longrightarrow> status (roots_do rt v oops_cl w) = Running"
  unfolding roots_do_def Let_def dtor_Running
  by (rule keeps_start, rule keeps_do_steps)
     (simp add: keeps_intros asserts_pass_def)

lemma strong_roots_do_completes:
  "asserts_pass rt \<Longrightarrow> status (strong_roots_do rt v oops_cl w) = Running"
  unfolding strong_roots_do_def Let_def dtor_Running
  by (rule keeps_start, rule keeps_do_steps)
     (simp add: keeps_intros asserts_pass_def)

lemma walk_restores:
  assumes "status (ShenandoahGCStateResetter_dtor (ShenandoahGCStateResetter_ctor w) r) = Running"
  shows "gc_state (vm (ShenandoahGCStateResetter_dtor (ShenandoahGCStateResetter_ctor w) r)) = gc_state w
       \<and> is_concurrent_weak_root_in_progress
           (vm (ShenandoahGCStateResetter_dtor (ShenandoahGCStateResetter_ctor w) r))
         = is_concurrent_weak_root_in_progress w"
proof -
  from assms have "status r = Running" by (simp add: dtor_Running)
  from dtor_restores [OF this, of "ShenandoahGCStateResetter_ctor w"]
  show ?thesis by (simp add: ShenandoahGCStateResetter_ctor_def)
qed


subsection \<open>A walk whose last step is the only one to visit thread roots\<close>

lemma only_last_step_visits_threads:
  assumes "fs \<noteq> []"
    and "list_all (appends (\<lambda>c. \<not> is_thread_roots c)) (butlast fs)"
    and "\<And>r. \<exists>cs. visited (last fs r) = visited r @ cs \<and> length cs \<le> 1"
  shows "\<not> list_ex is_thread_roots (butlast (visited (do_steps fs (start w))))"
proof -
  from assms(1) have fs: "fs = butlast fs @ [last fs]" by simp
  define r where "r = do_steps (butlast fs) (start w)"
  from appends_do_steps [OF assms(2)]
  have "\<exists>cs. visited (do_steps (butlast fs) (start w)) = visited (start w) @ cs
          \<and> list_all (\<lambda>c. \<not> is_thread_roots c) cs"
    unfolding appends_def by blast
  then obtain cs where cs: "visited r = cs" "list_all (\<lambda>c. \<not> is_thread_roots c) cs"
    by (auto simp: r_def start_def)
  from assms(3) obtain ds where ds: "visited (last fs r) = visited r @ ds" "length ds \<le> 1"
    by blast
  have "do_steps fs (start w) = last fs r"
    by (subst fs) (simp add: do_steps_append r_def)
  then have v: "visited (do_steps fs (start w)) = cs @ ds"
    using cs ds by simp
  show ?thesis
  proof (cases ds)
    case Nil
    with v cs(2) show ?thesis
      by (auto simp: list_ex_iff list_all_iff dest: in_set_butlastD)
  next
    case (Cons d ds')
    with ds(2) have "ds = [d]" by simp
    with v cs(2) show ?thesis
      by (simp add: list_ex_iff list_all_iff butlast_append)
  qed
qed


subsection \<open>The calls of the two unconditional walks\<close>

lemma vm_assert_run:
  "vm_assert P \<lparr>status = st, vm = w, visited = cs\<rparr> =
     \<lparr>status = (if P w then st else Aborted), vm = w, visited = cs\<rparr>"
  by (cases st) (simp_all add: vm_assert_def)

lemma invoke_run:
  "invoke c f \<lparr>status = Running, vm = w, visited = cs\<rparr> =
     \<lparr>status = Running, vm = f w, visited = cs @ [c]\<rparr>"
  "invoke c f \<lparr>status = Aborted, vm = w, visited = cs\<rparr> =
     \<lparr>status = Aborted, vm = w, visited = cs\<rparr>"
  by (simp_all add: invoke_def)

lemma roots_do_visited:
  "visited (roots_do rt v oops_cl w) =
     (if shenandoah_assert_safepoint rt w
      then [blobs_do_call, cld_do_call, JNIHandles_call, vm_global_call,
            weak_oops_do_call AlwaysTrueClosure]
           @ (if ShenandoahStringDedup_is_enabled rt then [oops_do_slow_call] else [])
           @ [possibly_parallel_oops_do_call True]
      else [])"
  unfolding roots_do_def Let_def visited_dtor
  by (cases "shenandoah_assert_safepoint rt w"; cases "ShenandoahStringDedup_is_enabled rt")
     (simp_all add: start_def vm_assert_run invoke_run)

lemma strong_roots_do_visited:
  "visited (strong_roots_do rt v oops_cl w) =
     (if shenandoah_assert_safepoint rt w
      then [roots_cld_do_call, JNIHandles_call, vm_global_call,
            possibly_parallel_oops_do_call True]
      else [])"
  unfolding strong_roots_do_def Let_def visited_dtor
  by (cases "shenandoah_assert_safepoint rt w")
     (simp_all add: start_def vm_assert_run invoke_run)

lemma roots_do_status:
  "status (roots_do rt v oops_cl w) =
     (if shenandoah_assert_safepoint rt w then Running else Aborted)"
  unfolding roots_do_def Let_def dtor_Running
  by (cases "shenandoah_assert_safepoint rt w"; cases "ShenandoahStringDedup_is_enabled rt")
     (simp_all add: start_def vm_assert_run invoke_run)

lemma strong_roots_do_status:
  "status (strong_roots_do rt v oops_cl w) =
     (if shenandoah_assert_safepoint rt w then Running else Aborted)"
  unfolding strong_roots_do_def Let_def dtor_Running
  by (cases "shenandoah_assert_safepoint rt w")
     (simp_all add: start_def vm_assert_run invoke_run)

subsection \<open>The calls of one kind that a step adds\<close>

lemma adds_invoke: "P c \<Longrightarrow> adds P [c] (invoke c f)"
  by (simp add: adds_def invoke_def)

lemma adds_enter: "P c \<Longrightarrow> adds P [c] (enter c)"
  unfolding enter_def by (rule adds_invoke)

lemma adds_Nil: "adds P [] (do_steps [])"
  by (simp add: adds_def)

lemma adds_Cons:
  "adds P xs f \<Longrightarrow> adds P ys (do_steps fs) \<Longrightarrow> adds P (xs @ ys) (do_steps (f # fs))"
  by (simp add: adds_def)

lemma adds_map_invoke:
  "(\<And>x. P (ev x)) \<Longrightarrow> adds P (map ev xs) (do_steps (map (\<lambda>x. invoke (ev x) (g x)) xs))"
proof (induction xs)
  case Nil
  show ?case by (simp add: adds_def)
next
  case (Cons x xs)
  have "adds P ([ev x] @ map ev xs)
          (do_steps (invoke (ev x) (g x) # map (\<lambda>x. invoke (ev x) (g x)) xs))"
    by (rule adds_Cons [OF adds_invoke]) (use Cons in simp_all)
  then show ?case by (simp only: append_Cons append_Nil list.map)
qed

lemma adds_entered:
  assumes "P c" and "\<And>x. P (ev x)"
  shows "adds P (c # map ev xs) (do_steps (enter c # map (\<lambda>x. invoke (ev x) (g x)) xs))"
proof -
  have "adds P ([c] @ map ev xs) (do_steps (enter c # map (\<lambda>x. invoke (ev x) (g x)) xs))"
    by (rule adds_Cons [OF adds_enter adds_map_invoke]) (use assms in simp_all)
  then show ?thesis by simp
qed

lemma adds_serial:
  "adds is_weak_call
     (serial_weak_roots_do_call # map (\<lambda>p. processor_call p AlwaysTrueClosure) (serial_iterator rt))
     (serial_weak_roots_do rt cl)"
  unfolding serial_weak_roots_do_def by (rule adds_entered) simp_all

lemma adds_concurrent:
  "adds is_weak_call
     (concurrent_weak_roots_do_call # map storage_oops_do_call (weak_iterator rt))
     (concurrent_weak_roots_do rt cl)"
  unfolding concurrent_weak_roots_do_def by (rule adds_entered) simp_all

lemma all_or_nothing_adds:
  assumes "adds P xs f" and "strict f"
  shows "all_or_nothing P xs f"
  unfolding all_or_nothing_def
proof
  fix r
  show "filter P (visited (f r)) = filter P (visited r) @ xs \<or>
        status (f r) = Aborted \<and> filter P (visited (f r)) = filter P (visited r)"
  proof (cases "status r")
    case Running
    with assms(1) show ?thesis by (simp add: adds_def)
  next
    case Aborted
    with assms(2) have "f r = r" by (simp add: strict_def)
    with Aborted show ?thesis by simp
  qed
qed

lemma all_or_nothing_guarded:
  assumes "adds P xs f" and "strict f"
  shows "all_or_nothing P xs (do_steps [vm_assert Q, f])"
  unfolding all_or_nothing_def
proof
  fix r
  from all_or_nothing_adds [OF assms]
  have f: "filter P (visited (f r')) = filter P (visited r') @ xs \<or>
        status (f r') = Aborted \<and> filter P (visited (f r')) = filter P (visited r')" for r'
    by (simp add: all_or_nothing_def)
  show "filter P (visited (do_steps [vm_assert Q, f] r)) = filter P (visited r) @ xs \<or>
        status (do_steps [vm_assert Q, f] r) = Aborted \<and>
        filter P (visited (do_steps [vm_assert Q, f] r)) = filter P (visited r)"
  proof (cases "status r = Running \<and> \<not> Q (vm r)")
    case True
    then have "vm_assert Q r = r\<lparr>status := Aborted\<rparr>" by (simp add: vm_assert_def)
    moreover from assms(2) have "f (r\<lparr>status := Aborted\<rparr>) = r\<lparr>status := Aborted\<rparr>"
      by (simp add: strict_def)
    ultimately show ?thesis by simp
  next
    case False
    then have "vm_assert Q r = r" by (simp add: vm_assert_def)
    with f [of r] show ?thesis by simp
  qed
qed

lemma all_or_nothing_appends:
  assumes "appends (\<lambda>c. \<not> P c) f"
  shows "all_or_nothing P [] f"
  unfolding all_or_nothing_def
proof
  fix r
  from assms obtain cs where "visited (f r) = visited r @ cs" "list_all (\<lambda>c. \<not> P c) cs"
    by (auto simp: appends_def)
  then have "filter P (visited (f r)) = filter P (visited r) @ []"
    by (simp add: list_all_iff)
  then show "filter P (visited (f r)) = filter P (visited r) @ [] \<or>
        status (f r) = Aborted \<and> filter P (visited (f r)) = filter P (visited r)" ..
qed

lemma filter_appends:
  assumes "appends (\<lambda>c. \<not> P c) f"
  shows "filter P (visited (f r)) = filter P (visited r)"
proof -
  from assms obtain cs where "visited (f r) = visited r @ cs" "list_all (\<lambda>c. \<not> P c) cs"
    by (auto simp: appends_def)
  then show ?thesis by (simp add: list_all_iff)
qed

text \<open>A walk split around its step \<open>n\<close>, the only one to add calls of the kind.\<close>

lemma all_or_nothing_around:
  assumes n: "n < length fs"
    and pre: "list_all (appends (\<lambda>c. \<not> P c)) (take n fs)"
    and mid: "all_or_nothing P xs (fs ! n)"
    and post: "list_all (appends (\<lambda>c. \<not> P c)) (drop (Suc n) fs)"
    and st: "list_all strict (drop (Suc n) fs)"
  shows "all_or_nothing P xs (do_steps fs)"
  unfolding all_or_nothing_def
proof
  fix r
  define r1 where "r1 = do_steps (take n fs) r"
  define r2 where "r2 = (fs ! n) r1"
  define r3 where "r3 = do_steps (drop (Suc n) fs) r2"
  from n have "fs = take n fs @ (fs ! n) # drop (Suc n) fs"
    by (simp add: id_take_nth_drop)
  then have "do_steps fs r = do_steps (take n fs @ (fs ! n) # drop (Suc n) fs) r"
    by simp
  then have r3: "do_steps fs r = r3"
    by (simp only: do_steps_append do_steps_Cons r1_def r2_def r3_def)
  have 1: "filter P (visited r1) = filter P (visited r)"
    unfolding r1_def by (rule filter_appends [OF appends_do_steps [OF pre]])
  have 3: "filter P (visited r3) = filter P (visited r2)"
    unfolding r3_def by (rule filter_appends [OF appends_do_steps [OF post]])
  from mid have "filter P (visited r2) = filter P (visited r1) @ xs \<or>
        status r2 = Aborted \<and> filter P (visited r2) = filter P (visited r1)"
    by (simp add: all_or_nothing_def r2_def)
  then show "filter P (visited (do_steps fs r)) = filter P (visited r) @ xs \<or>
        status (do_steps fs r) = Aborted \<and>
        filter P (visited (do_steps fs r)) = filter P (visited r)"
  proof
    assume "filter P (visited r2) = filter P (visited r1) @ xs"
    with 1 3 r3 show ?thesis by simp
  next
    assume a: "status r2 = Aborted \<and> filter P (visited r2) = filter P (visited r1)"
    with strict_do_steps [OF st] have "r3 = r2" by (simp add: strict_def r3_def)
    with a 1 r3 show ?thesis by simp
  qed
qed

lemma all_or_nothing_start:
  assumes "all_or_nothing P xs f"
  shows "filter P (visited (f (start w))) = xs \<or>
         status (f (start w)) = Aborted \<and> filter P (visited (f (start w))) = []"
  using assms [unfolded all_or_nothing_def, rule_format, of "start w"]
  by (simp add: start_def)

lemma weak_step:
  "all_or_nothing is_weak_call
     (if verify v (WeakRoots E) then [weak_oops_do_call AlwaysTrueClosure]
      else if verify v (SerialWeakRoots E)
      then serial_weak_roots_do_call #
           map (\<lambda>p. processor_call p AlwaysTrueClosure) (serial_iterator rt)
      else if verify v (ConcurrentWeakRoots E)
      then concurrent_weak_roots_do_call # map storage_oops_do_call (weak_iterator rt)
      else [])
     (if verify v (WeakRoots E)
            then do_steps
                  [vm_assert (shenandoah_assert_safepoint rt),
                   invoke (weak_oops_do_call AlwaysTrueClosure)
                     (WeakProcessor_weak_oops_do rt AlwaysTrueClosure oops_cl)]
            else if verify v (SerialWeakRoots E)
            then do_steps
                  [vm_assert (shenandoah_assert_safepoint rt),
                   serial_weak_roots_do rt oops_cl]
            else if verify v (ConcurrentWeakRoots E)
            then concurrent_weak_roots_do rt oops_cl
            else (\<lambda>r. r))"
  by (simp add: all_or_nothing_guarded all_or_nothing_adds adds_invoke adds_serial
      adds_concurrent strict_intros strict_serial strict_concurrent all_or_nothing_appends
      appends_intros)

lemma oops_do_weak_calls:
  "filter is_weak_call (visited (oops_do rt E v oops_cl w)) =
     (if verify v (WeakRoots E) then [weak_oops_do_call AlwaysTrueClosure]
      else if verify v (SerialWeakRoots E)
      then serial_weak_roots_do_call #
           map (\<lambda>p. processor_call p AlwaysTrueClosure) (serial_iterator rt)
      else if verify v (ConcurrentWeakRoots E)
      then concurrent_weak_roots_do_call # map storage_oops_do_call (weak_iterator rt)
      else []) \<or>
   status (oops_do rt E v oops_cl w) = Aborted \<and>
   filter is_weak_call (visited (oops_do rt E v oops_cl w)) = []"
  unfolding oops_do_def Let_def visited_dtor dtor_Running
  by (rule all_or_nothing_start, rule all_or_nothing_around [where n = 4])
     (simp_all add: weak_step appends_intros strict_intros)

lemma filter_strategy_weak_call:
  "filter is_weak_strategy (filter is_weak_call cs) = filter is_weak_strategy cs"
proof -
  have "(\<lambda>c. is_weak_call c \<and> is_weak_strategy c) = is_weak_strategy"
  proof
    fix c show "(is_weak_call c \<and> is_weak_strategy c) = is_weak_strategy c"
      by (cases c) simp_all
  qed
  then show ?thesis by simp
qed

lemma oops_do_one_strategy:
  "length (filter is_weak_strategy (visited (oops_do rt E v oops_cl w))) \<le> 1"
proof -
  define ws where "ws = filter is_weak_call (visited (oops_do rt E v oops_cl w))"
  from oops_do_weak_calls [of rt E v oops_cl w]
  have "ws = [weak_oops_do_call AlwaysTrueClosure] \<or>
        ws = serial_weak_roots_do_call #
             map (\<lambda>p. processor_call p AlwaysTrueClosure) (serial_iterator rt) \<or>
        ws = concurrent_weak_roots_do_call # map storage_oops_do_call (weak_iterator rt) \<or>
        ws = []"
    unfolding ws_def [symmetric] by (auto split: if_splits)
  then have "length (filter is_weak_strategy ws) \<le> 1"
    by (auto simp: filter_map comp_def)
  then show ?thesis
    unfolding ws_def by (simp only: filter_strategy_weak_call)
qed

section \<open>The example configuration, evaluated\<close>

lemma modify_run:
  "modify f \<lparr>status = Running, vm = w, visited = cs\<rparr> =
     \<lparr>status = Running, vm = f w, visited = cs\<rparr>"
  "modify f \<lparr>status = Aborted, vm = w, visited = cs\<rparr> =
     \<lparr>status = Aborted, vm = w, visited = cs\<rparr>"
  by (simp_all add: modify_def)

lemmas example_defs = example_runtime_def example_enum_def example_vm_def verify_def
  start_def vm_assert_run invoke_run serial_weak_roots_do_def concurrent_weak_roots_do_def
  enter_def

lemma example_asserts_pass: "asserts_pass example_runtime"
  by (simp add: asserts_pass_def example_runtime_def)

lemma example_safepoint: "shenandoah_assert_safepoint example_runtime example_vm"
  by (simp add: example_runtime_def)

lemma example_dedup: "ShenandoahStringDedup_is_enabled example_runtime"
  by (simp add: example_runtime_def)

lemma example_oops_do_all:
  "visited (oops_do example_runtime example_enum \<lparr>m_types = 511\<rparr> () example_vm) =
     [blobs_do_call, cld_do_call, JNIHandles_call, vm_global_call,
      weak_oops_do_call AlwaysTrueClosure, oops_do_slow_call,
      possibly_parallel_oops_do_call False]"
  unfolding oops_do_def Let_def visited_dtor
  by (simp add: example_defs)

lemma example_source_mutates:
  "gc_state (CodeCache_blobs_do example_runtime (CodeBlobToOopClosure () False) example_vm) = 4"
  "is_concurrent_weak_root_in_progress
     (CodeCache_blobs_do example_runtime (CodeBlobToOopClosure () False) example_vm)"
  by (simp_all add: example_runtime_def example_vm_def scramble_def gc_state_def
      is_concurrent_weak_root_in_progress_def)

subsection \<open>The state after the two unconditional walks\<close>

lemma dtor_run:
  "ShenandoahGCStateResetter_dtor res \<lparr>status = Running, vm = w, visited = cs\<rparr> =
     \<lparr>status = Running,
      vm = set_concurrent_weak_root_in_progress (saved_concurrent_weak_root_in_progress res)
             (gc_state_set (saved_gc_state res) w),
      visited = cs\<rparr>"
  "ShenandoahGCStateResetter_dtor res \<lparr>status = Aborted, vm = w, visited = cs\<rparr> =
     \<lparr>status = Aborted, vm = w, visited = cs\<rparr>"
  by (simp_all add: ShenandoahGCStateResetter_dtor_def modify_run vm_assert_run
      gc_state_def gc_state_set_def)

lemma roots_do_vm:
  "vm (roots_do rt v oops_cl w) =
     (if shenandoah_assert_safepoint rt w
      then set_concurrent_weak_root_in_progress (is_concurrent_weak_root_in_progress w)
            (gc_state_set (gc_state w)
              (Threads_possibly_parallel_oops_do rt True oops_cl
                 (CodeBlobToOopClosure oops_cl (\<not> FixRelocations rt))
                ((if ShenandoahStringDedup_is_enabled rt
                  then ShenandoahStringDedup_oops_do_slow rt oops_cl else (\<lambda>w. w))
                  (WeakProcessor_weak_oops_do rt AlwaysTrueClosure oops_cl
                    (vm_global_oops_do rt oops_cl
                      (JNIHandles_oops_do rt oops_cl
                        (ClassLoaderDataGraph_cld_do rt (CLDToOopClosure oops_cl (claim_none rt))
                          (CodeCache_blobs_do rt
                             (CodeBlobToOopClosure oops_cl (\<not> FixRelocations rt)) w))))))))
      else w)"
  unfolding roots_do_def Let_def
  by (cases "shenandoah_assert_safepoint rt w"; cases "ShenandoahStringDedup_is_enabled rt")
     (simp_all add: start_def vm_assert_run invoke_run dtor_run ShenandoahGCStateResetter_ctor_def)

lemma strong_roots_do_vm:
  "vm (strong_roots_do rt v oops_cl w) =
     (if shenandoah_assert_safepoint rt w
      then set_concurrent_weak_root_in_progress (is_concurrent_weak_root_in_progress w)
            (gc_state_set (gc_state w)
              (Threads_possibly_parallel_oops_do rt True oops_cl
                 (CodeBlobToOopClosure oops_cl (\<not> FixRelocations rt))
                (vm_global_oops_do rt oops_cl
                  (JNIHandles_oops_do rt oops_cl
                    (ClassLoaderDataGraph_roots_cld_do rt
                       (CLDToOopClosure oops_cl (claim_none rt)) None w)))))
      else w)"
  unfolding strong_roots_do_def Let_def
  by (cases "shenandoah_assert_safepoint rt w")
     (simp_all add: start_def vm_assert_run invoke_run dtor_run ShenandoahGCStateResetter_ctor_def)

lemma tracing_safepoint: "shenandoah_assert_safepoint tracing_runtime tracing_vm"
  by (simp add: tracing_runtime_def)

lemma tracing_dedup: "ShenandoahStringDedup_is_enabled tracing_runtime"
  by (simp add: tracing_runtime_def)

lemmas tracing_defs = tracing_runtime_def tracing_vm_def log_call_def gc_state_def
  gc_state_set_def is_concurrent_weak_root_in_progress_def
  set_concurrent_weak_root_in_progress_def

section \<open>Properties of the walks\<close>

text \<open>
  Claim C1. For each of the three walking entry points \<open>oops_do\<close>, \<open>roots_do\<close> and
  \<open>strong_roots_do\<close>: when the walk completes, the collector's phase-state bitfield and the
  concurrent-weak-roots-in-progress flag are what they were before the walk, whatever the root
  sources did to them during the walk (the root sources are arbitrary functions on the state):
  the resetter captures both at construction and writes both back at scope exit. A walk
  completes whenever its assertions pass.
\<close>

theorem guard_restores_state:
  "(status (oops_do rt E v oops_cl w) = Running \<longrightarrow>
      gc_state (vm (oops_do rt E v oops_cl w)) = gc_state w \<and>
      is_concurrent_weak_root_in_progress (vm (oops_do rt E v oops_cl w)) =
        is_concurrent_weak_root_in_progress w) \<and>
   (status (roots_do rt v oops_cl w) = Running \<longrightarrow>
      gc_state (vm (roots_do rt v oops_cl w)) = gc_state w \<and>
      is_concurrent_weak_root_in_progress (vm (roots_do rt v oops_cl w)) =
        is_concurrent_weak_root_in_progress w) \<and>
   (status (strong_roots_do rt v oops_cl w) = Running \<longrightarrow>
      gc_state (vm (strong_roots_do rt v oops_cl w)) = gc_state w \<and>
      is_concurrent_weak_root_in_progress (vm (strong_roots_do rt v oops_cl w)) =
        is_concurrent_weak_root_in_progress w) \<and>
   (asserts_pass rt \<longrightarrow>
      status (oops_do rt E v oops_cl w) = Running \<and>
      status (roots_do rt v oops_cl w) = Running \<and>
      status (strong_roots_do rt v oops_cl w) = Running)"
proof (intro conjI impI)
  assume "status (oops_do rt E v oops_cl w) = Running"
  then show "gc_state (vm (oops_do rt E v oops_cl w)) = gc_state w"
    and "is_concurrent_weak_root_in_progress (vm (oops_do rt E v oops_cl w)) =
        is_concurrent_weak_root_in_progress w"
    unfolding oops_do_def Let_def by (simp_all only: walk_restores)
next
  assume "status (roots_do rt v oops_cl w) = Running"
  then show "gc_state (vm (roots_do rt v oops_cl w)) = gc_state w"
    and "is_concurrent_weak_root_in_progress (vm (roots_do rt v oops_cl w)) =
        is_concurrent_weak_root_in_progress w"
    unfolding roots_do_def Let_def by (simp_all only: walk_restores)
next
  assume "status (strong_roots_do rt v oops_cl w) = Running"
  then show "gc_state (vm (strong_roots_do rt v oops_cl w)) = gc_state w"
    and "is_concurrent_weak_root_in_progress (vm (strong_roots_do rt v oops_cl w)) =
        is_concurrent_weak_root_in_progress w"
    unfolding strong_roots_do_def Let_def by (simp_all only: walk_restores)
next
  assume "asserts_pass rt"
  then show "status (oops_do rt E v oops_cl w) = Running"
    and "status (roots_do rt v oops_cl w) = Running"
    and "status (strong_roots_do rt v oops_cl w) = Running"
    by (rule oops_do_completes roots_do_completes strong_roots_do_completes)+
qed

theorem guard_restores_state_witness:
  "asserts_pass example_runtime \<and>
   gc_state example_vm = 5 \<and>
   gc_state (CodeCache_blobs_do example_runtime (CodeBlobToOopClosure () False) example_vm) = 4 \<and>
   status (oops_do example_runtime example_enum \<lparr>m_types = 511\<rparr> () example_vm) = Running \<and>
   gc_state (vm (oops_do example_runtime example_enum \<lparr>m_types = 511\<rparr> () example_vm)) = 5 \<and>
   \<not> is_concurrent_weak_root_in_progress
       (vm (oops_do example_runtime example_enum \<lparr>m_types = 511\<rparr> () example_vm)) \<and>
   status (roots_do example_runtime \<lparr>m_types = 511\<rparr> () example_vm) = Running \<and>
   gc_state (vm (roots_do example_runtime \<lparr>m_types = 511\<rparr> () example_vm)) = 5 \<and>
   \<not> is_concurrent_weak_root_in_progress
       (vm (roots_do example_runtime \<lparr>m_types = 511\<rparr> () example_vm)) \<and>
   status (strong_roots_do example_runtime \<lparr>m_types = 511\<rparr> () example_vm) = Running \<and>
   gc_state (vm (strong_roots_do example_runtime \<lparr>m_types = 511\<rparr> () example_vm)) = 5 \<and>
   \<not> is_concurrent_weak_root_in_progress
       (vm (strong_roots_do example_runtime \<lparr>m_types = 511\<rparr> () example_vm))"
proof -
  have start: "gc_state example_vm = 5" "\<not> is_concurrent_weak_root_in_progress example_vm"
    by (simp_all add: example_vm_def gc_state_def is_concurrent_weak_root_in_progress_def)
  from guard_restores_state
         [of example_runtime example_enum "\<lparr>m_types = 511\<rparr>" "()" example_vm]
    example_asserts_pass start example_source_mutates(1)
  show ?thesis by simp
qed






text \<open>
  Claim C4, as amended. At a safepoint (its asserted precondition) \<open>strong_roots_do\<close> makes
  exactly these calls, in this order: the strong subset of the class-loader graph
  (\<^verbatim>\<open>roots_cld_do\<close>, with the walker's closure and no closure for the weak part), the
  JNI handles, the global handles of the virtual machine, and finally the thread roots, in
  parallel mode, which are handed the caller's closure and the closure for the code blobs. The
  state it leaves is the state these four sources produce, applied in this order to the state
  before the walk, with the collector's phase state then restored. It walks neither the code
  cache nor the weak processor nor the string deduplication table, and it does not look at the
  walker's set. When the assertion fails the run is aborted before any call, the state untouched.
\<close>

theorem strong_walk_calls:
  "visited (strong_roots_do rt v oops_cl w) =
     (if shenandoah_assert_safepoint rt w
      then [roots_cld_do_call, JNIHandles_call, vm_global_call,
            possibly_parallel_oops_do_call True]
      else []) \<and>
   status (strong_roots_do rt v oops_cl w) =
     (if shenandoah_assert_safepoint rt w then Running else Aborted) \<and>
   vm (strong_roots_do rt v oops_cl w) =
     (if shenandoah_assert_safepoint rt w
      then set_concurrent_weak_root_in_progress (is_concurrent_weak_root_in_progress w)
            (gc_state_set (gc_state w)
              (Threads_possibly_parallel_oops_do rt True oops_cl
                 (CodeBlobToOopClosure oops_cl (\<not> FixRelocations rt))
                (vm_global_oops_do rt oops_cl
                  (JNIHandles_oops_do rt oops_cl
                    (ClassLoaderDataGraph_roots_cld_do rt
                       (CLDToOopClosure oops_cl (claim_none rt)) None w)))))
      else w) \<and>
   blobs_do_call \<notin> set (visited (strong_roots_do rt v oops_cl w)) \<and>
   weak_oops_do_call is_alive \<notin> set (visited (strong_roots_do rt v oops_cl w)) \<and>
   serial_weak_roots_do_call \<notin> set (visited (strong_roots_do rt v oops_cl w)) \<and>
   concurrent_weak_roots_do_call \<notin> set (visited (strong_roots_do rt v oops_cl w)) \<and>
   oops_do_slow_call \<notin> set (visited (strong_roots_do rt v oops_cl w)) \<and>
   strong_roots_do rt v oops_cl w = strong_roots_do rt v' oops_cl w"
proof (intro conjI)
  show "vm (strong_roots_do rt v oops_cl w) =
     (if shenandoah_assert_safepoint rt w
      then set_concurrent_weak_root_in_progress (is_concurrent_weak_root_in_progress w)
            (gc_state_set (gc_state w)
              (Threads_possibly_parallel_oops_do rt True oops_cl
                 (CodeBlobToOopClosure oops_cl (\<not> FixRelocations rt))
                (vm_global_oops_do rt oops_cl
                  (JNIHandles_oops_do rt oops_cl
                    (ClassLoaderDataGraph_roots_cld_do rt
                       (CLDToOopClosure oops_cl (claim_none rt)) None w)))))
      else w)"
    by (rule strong_roots_do_vm)
  show "strong_roots_do rt v oops_cl w = strong_roots_do rt v' oops_cl w"
    by (simp add: strong_roots_do_def)
qed (simp_all add: strong_roots_do_visited strong_roots_do_status)

theorem strong_walk_calls_witness:
  "shenandoah_assert_safepoint example_runtime example_vm \<and>
   visited (strong_roots_do example_runtime \<lparr>m_types = 511\<rparr> () example_vm) =
     [roots_cld_do_call, JNIHandles_call, vm_global_call, possibly_parallel_oops_do_call True] \<and>
   status (strong_roots_do example_runtime \<lparr>m_types = 511\<rparr> () example_vm) = Running \<and>
   shenandoah_assert_safepoint tracing_runtime tracing_vm \<and>
   visited (strong_roots_do tracing_runtime \<lparr>m_types = 511\<rparr> 7 tracing_vm) =
     [roots_cld_do_call, JNIHandles_call, vm_global_call, possibly_parallel_oops_do_call True] \<and>
   vm (strong_roots_do tracing_runtime \<lparr>m_types = 511\<rparr> 7 tracing_vm) =
     \<lparr>heap_gc_state = 5, heap_concurrent_weak_root_in_progress = True,
      vm_rest = [3, 7, 0, 0, 4, 7, 5, 7, 10, 1, 7, 7, 0]\<rparr>"
  using strong_walk_calls [of example_runtime "\<lparr>m_types = 511\<rparr>" "()" example_vm]
    strong_walk_calls [of tracing_runtime "\<lparr>m_types = 511\<rparr>" 7 tracing_vm]
    example_safepoint tracing_safepoint
  by (simp add: tracing_defs)

text \<open>
  The claim as first stated has \<open>strong_roots_do\<close> visit the compiled-code references first.
  It does not: the closure for the code blobs is built and handed to the thread roots, and the
  walk of the code cache that \<open>roots_do\<close> makes is absent. At a safepoint, in the example
  configuration:
\<close>

theorem strong_walk_skips_code_cache:
  "shenandoah_assert_safepoint example_runtime example_vm \<and>
   visited (strong_roots_do example_runtime \<lparr>m_types = 511\<rparr> () example_vm) \<noteq>
     [blobs_do_call, roots_cld_do_call, JNIHandles_call, vm_global_call,
      possibly_parallel_oops_do_call True] \<and>
   blobs_do_call \<notin> set (visited (strong_roots_do example_runtime \<lparr>m_types = 511\<rparr> ()
     example_vm))"
  by (simp add: strong_roots_do_visited example_safepoint)

text \<open>
  Claim C5. At a safepoint (its asserted precondition) \<open>roots_do\<close> makes exactly these calls,
  in this order, whatever the walker's set, which it does not look at: the code cache, the
  class-loader graph, the JNI handles and the global handles of the virtual machine, the full
  walk of the weak processor with the always-true liveness closure, the string deduplication table
  if and only if deduplication is enabled, and finally the thread roots. No call is made twice.
  Each call is the call of the root source itself, with the caller's closure: the state the
  walk leaves is the state these sources produce, applied once each in this order to the state
  before the walk, with the collector's phase state then restored. When the assertion fails the
  run is aborted before any call, the state untouched.
\<close>

theorem full_walk_calls:
  "visited (roots_do rt v oops_cl w) =
     (if shenandoah_assert_safepoint rt w
      then [blobs_do_call, cld_do_call, JNIHandles_call, vm_global_call,
            weak_oops_do_call AlwaysTrueClosure]
           @ (if ShenandoahStringDedup_is_enabled rt then [oops_do_slow_call] else [])
           @ [possibly_parallel_oops_do_call True]
      else []) \<and>
   status (roots_do rt v oops_cl w) =
     (if shenandoah_assert_safepoint rt w then Running else Aborted) \<and>
   vm (roots_do rt v oops_cl w) =
     (if shenandoah_assert_safepoint rt w
      then set_concurrent_weak_root_in_progress (is_concurrent_weak_root_in_progress w)
            (gc_state_set (gc_state w)
              (Threads_possibly_parallel_oops_do rt True oops_cl
                 (CodeBlobToOopClosure oops_cl (\<not> FixRelocations rt))
                ((if ShenandoahStringDedup_is_enabled rt
                  then ShenandoahStringDedup_oops_do_slow rt oops_cl else (\<lambda>w. w))
                  (WeakProcessor_weak_oops_do rt AlwaysTrueClosure oops_cl
                    (vm_global_oops_do rt oops_cl
                      (JNIHandles_oops_do rt oops_cl
                        (ClassLoaderDataGraph_cld_do rt (CLDToOopClosure oops_cl (claim_none rt))
                          (CodeCache_blobs_do rt
                             (CodeBlobToOopClosure oops_cl (\<not> FixRelocations rt)) w))))))))
      else w) \<and>
   distinct (visited (roots_do rt v oops_cl w)) \<and>
   roots_do rt v oops_cl w = roots_do rt v' oops_cl w"
proof (intro conjI)
  show "vm (roots_do rt v oops_cl w) =
     (if shenandoah_assert_safepoint rt w
      then set_concurrent_weak_root_in_progress (is_concurrent_weak_root_in_progress w)
            (gc_state_set (gc_state w)
              (Threads_possibly_parallel_oops_do rt True oops_cl
                 (CodeBlobToOopClosure oops_cl (\<not> FixRelocations rt))
                ((if ShenandoahStringDedup_is_enabled rt
                  then ShenandoahStringDedup_oops_do_slow rt oops_cl else (\<lambda>w. w))
                  (WeakProcessor_weak_oops_do rt AlwaysTrueClosure oops_cl
                    (vm_global_oops_do rt oops_cl
                      (JNIHandles_oops_do rt oops_cl
                        (ClassLoaderDataGraph_cld_do rt (CLDToOopClosure oops_cl (claim_none rt))
                          (CodeCache_blobs_do rt
                             (CodeBlobToOopClosure oops_cl (\<not> FixRelocations rt)) w))))))))
      else w)"
    by (rule roots_do_vm)
  show "roots_do rt v oops_cl w = roots_do rt v' oops_cl w"
    by (simp add: roots_do_def)
qed (simp_all add: roots_do_visited roots_do_status)

theorem full_walk_calls_witness:
  "shenandoah_assert_safepoint example_runtime example_vm \<and>
   ShenandoahStringDedup_is_enabled example_runtime \<and>
   visited (roots_do example_runtime \<lparr>m_types = 0\<rparr> () example_vm) =
     [blobs_do_call, cld_do_call, JNIHandles_call, vm_global_call,
      weak_oops_do_call AlwaysTrueClosure, oops_do_slow_call,
      possibly_parallel_oops_do_call True] \<and>
   status (roots_do example_runtime \<lparr>m_types = 0\<rparr> () example_vm) = Running \<and>
   shenandoah_assert_safepoint tracing_runtime tracing_vm \<and>
   ShenandoahStringDedup_is_enabled tracing_runtime \<and>
   visited (roots_do tracing_runtime \<lparr>m_types = 0\<rparr> 7 tracing_vm) =
     [blobs_do_call, cld_do_call, JNIHandles_call, vm_global_call,
      weak_oops_do_call AlwaysTrueClosure, oops_do_slow_call,
      possibly_parallel_oops_do_call True] \<and>
   vm (roots_do tracing_runtime \<lparr>m_types = 0\<rparr> 7 tracing_vm) =
     \<lparr>heap_gc_state = 5, heap_concurrent_weak_root_in_progress = True,
      vm_rest = [1, 7, 0, 2, 7, 0, 4, 7, 5, 7, 6, 7, 9, 7, 10, 1, 7, 7, 0]\<rparr>"
  using full_walk_calls [of example_runtime "\<lparr>m_types = 0\<rparr>" "()" example_vm]
    full_walk_calls [of tracing_runtime "\<lparr>m_types = 0\<rparr>" 7 tracing_vm]
    example_safepoint example_dedup tracing_safepoint tracing_dedup
  by (simp add: tracing_defs)

end
